theory Spec2Isabelle
  imports Complex_Main "HOL-Library.Product_Lexorder"
begin

section \<open>The end-to-end harness of datatools-ui\<close>

text \<open>
  The development follows \<^verbatim>\<open>__tests__/end-to-end.js\<close>: the dependency check every
  test is registered through (\<^verbatim>\<open>makeMakeTest\<close>), and the text entry helpers
  (\<^verbatim>\<open>clearInput\<close>, \<^verbatim>\<open>clearAndType\<close>, \<^verbatim>\<open>clearAndTypeNumber\<close>,
  \<^verbatim>\<open>appendText\<close>) that drive the browser page.

  JavaScript strings are \<open>string\<close>; one \<open>char\<close> stands for one UTF-16 code unit (the
  suite's texts are ASCII). An \<^verbatim>\<open>async\<close> function that may reject returns a sum:
  \<open>Inl\<close> the thrown value, \<open>Inr\<close> the state it leaves.

  A thrown value is an error object, with its name and its message, or any other value,
  kept by the text a template literal gives it. \<open>Error msg\<close> is \<^verbatim>\<open>new Error(msg)\<close>.
  \<open>thrown_text\<close> is \<^verbatim>\<open>${e}\<close>: for an error object the name, a colon and the message,
  or the one of the two that is not empty.
\<close>

datatype thrown = ErrorObject string string | Value string

abbreviation Error :: "string \<Rightarrow> thrown" where
  "Error msg \<equiv> ErrorObject ''Error'' msg"


definition quoted :: "string \<Rightarrow> string" where
  \<comment> \<open>the text between two double quotes, as the template literals write it\<close>
  "quoted s = CHR 0x22 # s @ [CHR 0x22]"

subsection \<open>The dependency check: makeMakeTest\<close>

text \<open>
  \<^verbatim>\<open>const testResults = {}\<close> is a plain object. Of a stored value only its truthiness
  is read (\<^verbatim>\<open>!testResults[test]\<close>), so an own property is a \<open>bool\<close>. A key the
  object does not own is looked up in \<^verbatim>\<open>Object.prototype\<close>, whose members are all
  truthy; every other key reads \<^verbatim>\<open>undefined\<close>.

  An assignment \<^verbatim>\<open>testResults[name] = true\<close> stores an own property, but for the key
  \<^verbatim>\<open>__proto__\<close>: that one is an accessor of \<^verbatim>\<open>Object.prototype\<close>, whose setter
  ignores a value that is not an object, so nothing is stored.
\<close>

datatype log_level = Info | Err

record 'w harness =
  testResults :: "string \<rightharpoonup> bool"
  log_lines :: "(log_level \<times> string) list"
  world :: 'w




definition log_info :: "string \<Rightarrow> 'w harness \<Rightarrow> 'w harness" where
  "log_info msg s = s\<lparr>log_lines := log_lines s @ [(Info, msg)]\<rparr>"

definition log_error :: "string \<Rightarrow> 'w harness \<Rightarrow> 'w harness" where
  "log_error msg s = s\<lparr>log_lines := log_lines s @ [(Err, msg)]\<rparr>"












subsection \<open>The browser page\<close>

text \<open>
  The helpers drive a puppeteer \<^verbatim>\<open>page\<close>. The library is not part of the repository;
  what the helpers call is written out here as the library documents it, for plain
  single-line text inputs:
  \<^item> a selector denotes the first element that matches it, or none
    (\<open>querySelector\<close>); \<^verbatim>\<open>page.$eval\<close>, \<^verbatim>\<open>page.type\<close> and \<^verbatim>\<open>page.focus\<close>
    throw when there is none;
  \<^item> an input holds its text and a caret; assigning \<^verbatim>\<open>input.value\<close> replaces the
    text and leaves the caret at its end;
  \<^item> \<^verbatim>\<open>page.type\<close> focuses the element and types the text on the keyboard;
  \<^item> the keyboard acts on the focused element: a character is inserted at the caret,
    carriage return and line feed are the Enter key (which inserts nothing),
    \<^verbatim>\<open>ArrowLeft\<close> moves the caret one place left unless it is at the start,
    \<^verbatim>\<open>End\<close> moves it behind the last character;
  \<^item> the page receives every key stroke, whether or not it changes an input:
    \<open>keystrokes\<close> is the sequence of them, in order.
\<close>

record input_element =
  el_value :: string
  caret :: nat

datatype key = ArrowLeft | End | Enter

datatype keystroke = Press key | Character char

record page =
  querySelector :: "string \<Rightarrow> nat option"
  inputs :: "nat \<Rightarrow> input_element"
  activeElement :: "nat option"
  keystrokes :: "keystroke list"

definition set_value :: "string \<Rightarrow> input_element \<Rightarrow> input_element" where
  \<comment> \<open>\<^verbatim>\<open>input.value = v\<close>\<close>
  "set_value v e = e\<lparr>el_value := v, caret := length v\<rparr>"

definition insert_char :: "char \<Rightarrow> input_element \<Rightarrow> input_element" where
  "insert_char c e =
     (let k = min (caret e) (length (el_value e))
      in e\<lparr>el_value := take k (el_value e) @ c # drop k (el_value e), caret := Suc k\<rparr>)"

fun key_on :: "key \<Rightarrow> input_element \<Rightarrow> input_element" where
  "key_on ArrowLeft e = e\<lparr>caret := caret e - 1\<rparr>"
| "key_on End e = e\<lparr>caret := length (el_value e)\<rparr>"
| "key_on Enter e = e"

definition on_active :: "(input_element \<Rightarrow> input_element) \<Rightarrow> page \<Rightarrow> page" where
  "on_active f p =
     (case activeElement p of
        None \<Rightarrow> p
      | Some i \<Rightarrow> p\<lparr>inputs := (inputs p)(i := f (inputs p i))\<rparr>)"

definition keyboard_press :: "key \<Rightarrow> page \<Rightarrow> page" where
  \<comment> \<open>\<^verbatim>\<open>page.keyboard.press(key)\<close>\<close>
  "keyboard_press k p = (on_active (key_on k) p)\<lparr>keystrokes := keystrokes p @ [Press k]\<rparr>"

definition type_char :: "char \<Rightarrow> page \<Rightarrow> page" where
  "type_char c p =
     (if c = CHR 0x0D \<or> c = CHR 0x0A then keyboard_press Enter p
      else (on_active (insert_char c) p)\<lparr>keystrokes := keystrokes p @ [Character c]\<rparr>)"

fun keyboard_type :: "string \<Rightarrow> page \<Rightarrow> page" where
  \<comment> \<open>\<^verbatim>\<open>page.keyboard.type(text)\<close>: one key stroke per character, in order\<close>
  "keyboard_type [] p = p"
| "keyboard_type (c # cs) p = keyboard_type cs (type_char c p)"

definition dollar_eval ::
    "string \<Rightarrow> (input_element \<Rightarrow> input_element) \<Rightarrow> page \<Rightarrow> thrown + page" where
  \<comment> \<open>\<^verbatim>\<open>page.$eval(selector, pageFunction)\<close>\<close>
  "dollar_eval selector pageFunction p =
     (case querySelector p selector of
        None \<Rightarrow> Inl (Error (''Error: failed to find element matching selector '' @ quoted selector))
      | Some i \<Rightarrow> Inr (p\<lparr>inputs := (inputs p)(i := pageFunction (inputs p i))\<rparr>))"

definition page_focus :: "string \<Rightarrow> page \<Rightarrow> thrown + page" where
  \<comment> \<open>\<^verbatim>\<open>page.focus(selector)\<close>\<close>
  "page_focus selector p =
     (case querySelector p selector of
        None \<Rightarrow> Inl (Error (''No node found for selector: '' @ selector))
      | Some i \<Rightarrow> Inr (p\<lparr>activeElement := Some i\<rparr>))"

definition page_type :: "string \<Rightarrow> string \<Rightarrow> page \<Rightarrow> thrown + page" where
  \<comment> \<open>\<^verbatim>\<open>page.type(selector, text)\<close>\<close>
  "page_type selector text p =
     (case page_focus selector p of
        Inl e \<Rightarrow> Inl e
      | Inr p1 \<Rightarrow> Inr (keyboard_type text p1))"

subsection \<open>The text entry helpers\<close>

definition clearInput :: "string \<Rightarrow> page \<Rightarrow> thrown + page" where
  "clearInput inputSelector p = dollar_eval inputSelector (set_value []) p"

definition clearAndType :: "string \<Rightarrow> string \<Rightarrow> page \<Rightarrow> thrown + page" where
  "clearAndType selector text p =
     (case clearInput selector p of
        Inl e \<Rightarrow> Inl e
      | Inr p1 \<Rightarrow> page_type selector text p1)"

definition appendText :: "string \<Rightarrow> string \<Rightarrow> page \<Rightarrow> thrown + page" where
  "appendText selector text p =
     (case page_focus selector p of
        Inl e \<Rightarrow> Inl e
      | Inr p1 \<Rightarrow> Inr (keyboard_type text (keyboard_press End p1)))"

text \<open>
  A JavaScript number, as far as a comparison with zero reads it. \<^verbatim>\<open>parseFloat\<close> is
  a builtin of the language: \<open>clearAndTypeNumber\<close> takes it as a parameter.
\<close>

datatype number = NaN | Finite real | PosInfinity | NegInfinity

fun less_than_zero :: "number \<Rightarrow> bool" where
  \<comment> \<open>\<^verbatim>\<open>x < 0\<close>\<close>
  "less_than_zero NaN = False"
| "less_than_zero (Finite r) = (r < 0)"
| "less_than_zero PosInfinity = False"
| "less_than_zero NegInfinity = True"

function press_ArrowLeft_from :: "nat \<Rightarrow> nat \<Rightarrow> page \<Rightarrow> page" where
  \<comment> \<open>\<^verbatim>\<open>for (let i = 0; i < text.length; i++) await page.keyboard.press('ArrowLeft')\<close>,
      from the counter \<open>i\<close> on\<close>
  "press_ArrowLeft_from i n p =
     (if i < n then press_ArrowLeft_from (Suc i) n (keyboard_press ArrowLeft p) else p)"
  by pat_completeness auto
termination
  by (relation "measure (\<lambda>(i, n, p). n - i)") auto

declare press_ArrowLeft_from.simps [simp del]

definition clearAndTypeNumber ::
    "(string \<Rightarrow> number) \<Rightarrow> string \<Rightarrow> string \<Rightarrow> page \<Rightarrow> thrown + page" where
  "clearAndTypeNumber parseFloat selector text p =
     (case clearAndType selector text p of
        Inl e \<Rightarrow> Inl e
      | Inr p1 \<Rightarrow>
          if less_than_zero (parseFloat text)
          then Inr (keyboard_type ''-'' (press_ArrowLeft_from 0 (length text) p1))
          else Inr p1)"

text \<open>
  The same helper as its description reads: \<open>clearAndType\<close>, and for a text that parses
  below zero, \<open>length text\<close> presses of \<^verbatim>\<open>ArrowLeft\<close> and then a typed \<^verbatim>\<open>-\<close>.
  \<open>stroke\<close> is the key stroke that typing a character sends.
\<close>

definition stroke :: "char \<Rightarrow> keystroke" where
  "stroke c = (if c = CHR 0x0D \<or> c = CHR 0x0A then Press Enter else Character c)"

definition clearAndTypeNumber_described ::
    "(string \<Rightarrow> number) \<Rightarrow> string \<Rightarrow> string \<Rightarrow> page \<Rightarrow> thrown + page" where
  "clearAndTypeNumber_described parseFloat selector text p =
     (if \<not> less_than_zero (parseFloat text) then clearAndType selector text p
      else map_sum id
             (\<lambda>p1. keyboard_type ''-'' ((keyboard_press ArrowLeft ^^ length text) p1))
             (clearAndType selector text p))"

text \<open>The builtin on the coordinates the suite types into the stop form.\<close>

definition parseFloat_of_suite :: "string \<Rightarrow> number" where
  "parseFloat_of_suite text =
     (if text = ''37.04671717'' then Finite 37.04671717
      else if text = ''-122.07529759'' then Finite (- 122.07529759)
      else if text = ''37.04783038'' then Finite 37.04783038
      else if text = ''-122.07521176'' then Finite (- 122.07521176)
      else NaN)"

text \<open>What typing a text inserts: every character but the Enter keys.\<close>

definition inserted :: "string \<Rightarrow> string" where
  "inserted text = filter (\<lambda>c. c \<noteq> CHR 0x0D \<and> c \<noteq> CHR 0x0A) text"

subsection \<open>A state of the suite\<close>



text \<open>
  The stop form as it stands after \<^verbatim>\<open>should create stop\<close>, with its text inputs
  under the selectors the suite uses, the caret of each at the start.
\<close>

definition input_of :: "string \<Rightarrow> string" where
  "input_of container = ''[data-test-id='' @ quoted container @ ''] input''"

definition stop_form :: page where
  "stop_form =
     \<lparr>querySelector =
        (\<lambda>selector.
           if selector = input_of ''stop-stop_id-input-container'' then Some 0
           else if selector = input_of ''stop-stop_code-input-container'' then Some 1
           else if selector = input_of ''stop-stop_lat-input-container'' then Some 2
           else if selector = input_of ''stop-stop_lon-input-container'' then Some 3
           else None),
      inputs =
        (\<lambda>i. \<lparr>el_value =
               (if i = 0 then ''test-stop-1''
                else if i = 1 then ''1''
                else if i = 2 then ''37.04671717''
                else if i = 3 then ''-122.07529759''
                else []),
              caret = 0\<rparr>),
      activeElement = None,
      keystrokes = []\<rparr>"

text \<open>The same form with another text, and the caret elsewhere, in the stop code input.\<close>

definition stop_form_edited :: page where
  "stop_form_edited =
     stop_form\<lparr>inputs := (inputs stop_form)(1 := \<lparr>el_value = ''4711'', caret = 2\<rparr>),
               activeElement := Some 0\<rparr>"

section \<open>Feed versions and publishing\<close>

text \<open>
  The suite observes feed versions only through the page: the validity line of the version
  on display, after an upload, a fetch, a publish or a deletion. The code that keeps the
  versions and publishes a snapshot is not among the sources; the definitions of this
  section are modelled from the specification, each marked so.

  A service date is \<open>(year, month, day)\<close>; the lexicographic order of the triple is the
  order of the calendar.
\<close>

type_synonym date = "nat \<times> nat \<times> nat"

text \<open>
  Modelled from the spec: the data model, as far as the validity window and the version
  list read it. A Calendar and a CalendarException (``a named override for a set of
  explicit dates''); a Snapshot with its status and, of its entity set, the calendars and
  exceptions; a FeedVersion with its creation time, validity window and source snapshot;
  a FeedSource with its deployability flag, its zero-or-one active snapshot and its
  versions.
\<close>

record calendar =
  service_id :: string
  start_date :: date
  end_date :: date

record calendar_exception =
  exception_name :: string
  dates :: "date list"

datatype snapshot_status = Editing | Publishing | Published | Discarded

record snapshot =
  snapshot_id :: nat
  status :: snapshot_status
  calendars :: "calendar list"
  exceptions :: "calendar_exception list"

record feed_version =
  version_id :: nat
  created :: nat
  validity :: "(date \<times> date) option"
  source_snapshot :: "nat option"

record feed_source =
  deployable :: bool
  activeSnapshotId :: "nat option"
  versions :: "feed_version list"

text \<open>
  Modelled from the spec: the date ranges of a snapshot, for ``a validity window derived
  from the union of Calendar/CalendarException date ranges in the snapshot''. A calendar
  ranges from its start date to its end date, an exception from the first to the last of
  its explicit dates; an exception without a date has no range.
\<close>

definition exception_range :: "calendar_exception \<Rightarrow> (date \<times> date) list" where
  "exception_range x =
     (case dates x of
        [] \<Rightarrow> []
      | d # ds \<Rightarrow> [(fold min ds d, fold max ds d)])"

definition date_ranges :: "snapshot \<Rightarrow> (date \<times> date) list" where
  "date_ranges snap =
     map (\<lambda>c. (start_date c, end_date c)) (calendars snap)
       @ concat (map exception_range (exceptions snap))"

text \<open>
  Modelled from the spec: the bound of the union of the ranges, from the earliest start
  to the latest end; no range, no window.
\<close>

fun union_bound :: "(date \<times> date) list \<Rightarrow> (date \<times> date) option" where
  "union_bound [] = None"
| "union_bound (r # rs) = Some (fold min (map fst rs) (fst r), fold max (map snd rs) (snd r))"

text \<open>
  Modelled from the spec: the feed source's ``ordered list of FeedVersion references
  (ordered by creation/publish time, most-recent-first)''. A new version takes its place
  by creation time; the version on display is the first of the list; deleting a version
  removes it and touches nothing else (``deletion is independent of snapshots'').
\<close>

fun insert_version :: "feed_version \<Rightarrow> feed_version list \<Rightarrow> feed_version list" where
  "insert_version v [] = [v]"
| "insert_version v (w # ws) =
     (if created w \<le> created v then v # w # ws else w # insert_version v ws)"

definition add_version :: "feed_version \<Rightarrow> feed_source \<Rightarrow> feed_source" where
  "add_version v fs = fs\<lparr>versions := insert_version v (versions fs)\<rparr>"

definition delete_version :: "nat \<Rightarrow> feed_source \<Rightarrow> feed_source" where
  "delete_version vid fs = fs\<lparr>versions := filter (\<lambda>v. version_id v \<noteq> vid) (versions fs)\<rparr>"

definition current_version :: "feed_source \<Rightarrow> feed_version option" where
  "current_version fs = (case versions fs of [] \<Rightarrow> None | v # _ \<Rightarrow> Some v)"

definition most_recent_first :: "feed_version list \<Rightarrow> bool" where
  "most_recent_first vs = sorted_wrt (\<lambda>a b. created b \<le> created a) vs"

text \<open>
  Modelled from the spec: \<^verbatim>\<open>publish(snapshotId) -> FeedVersion | fails(ValidationSummary,
  JobFailure)\<close>. The export and validation step is an external job; its outcome is an
  argument, as are the time and the identity of the new version. ``On success [publish]
  materializes an immutable FeedVersion with a validity window derived from the union of
  Calendar/CalendarException date ranges in the snapshot, and deactivates the snapshot'';
  ``on failure, snapshot remains active and editable, and the specific validation errors
  are surfaced'': a failed publish returns the error and no new state.
\<close>

datatype export_outcome = Exported | Invalid "string list" | Crashed string

datatype publish_error = ValidationSummary "string list" | JobFailure string

definition publish ::
    "export_outcome \<Rightarrow> nat \<Rightarrow> nat \<Rightarrow> snapshot \<Rightarrow> feed_source
       \<Rightarrow> publish_error + feed_version \<times> snapshot \<times> feed_source" where
  "publish outcome now vid snap fs =
     (case outcome of
        Invalid errors \<Rightarrow> Inl (ValidationSummary errors)
      | Crashed reason \<Rightarrow> Inl (JobFailure reason)
      | Exported \<Rightarrow>
          (let v = \<lparr>version_id = vid, created = now,
                    validity = union_bound (date_ranges snap),
                    source_snapshot = Some (snapshot_id snap)\<rparr>
           in Inr (v, snap\<lparr>status := Published\<rparr>,
                   add_version v (fs\<lparr>activeSnapshotId := None\<rparr>))))"

subsection \<open>The feed sources of the suite\<close>

text \<open>
  The feed source of the suite after the upload (valid Jan 1, 2014 to Dec 31, 2018) and
  the fetch (valid Apr 8, 2018 to Jun 30, 2018), and the version a second upload of the
  same file adds.
\<close>

definition uploaded_version :: feed_version where
  "uploaded_version =
     \<lparr>version_id = 1, created = 1, validity = Some ((2014, 1, 1), (2018, 12, 31)),
      source_snapshot = None\<rparr>"

definition fetched_version :: feed_version where
  "fetched_version =
     \<lparr>version_id = 2, created = 2, validity = Some ((2018, 4, 8), (2018, 6, 30)),
      source_snapshot = None\<rparr>"

definition uploaded_again :: feed_version where
  "uploaded_again =
     \<lparr>version_id = 3, created = 3, validity = Some ((2014, 1, 1), (2018, 12, 31)),
      source_snapshot = None\<rparr>"

definition test_feed_source :: feed_source where
  "test_feed_source =
     \<lparr>deployable = True, activeSnapshotId = None,
      versions = [fetched_version, uploaded_version]\<rparr>"

text \<open>
  The scratch feed of the suite when its snapshot is published: one calendar, from
  05/29/18 to 05/29/28, and one exception, on 07/04/18.
\<close>

definition scratch_snapshot :: snapshot where
  "scratch_snapshot =
     \<lparr>snapshot_id = 1, status = Editing,
      calendars = [\<lparr>service_id = ''test-service-id'',
                    start_date = (2018, 5, 29), end_date = (2028, 5, 29)\<rparr>],
      exceptions = [\<lparr>exception_name = ''test exception updated'', dates = [(2018, 7, 4)]\<rparr>]\<rparr>"

text \<open>The same snapshot with its calendar alone.\<close>

definition calendar_only_snapshot :: snapshot where
  "calendar_only_snapshot = scratch_snapshot\<lparr>exceptions := []\<rparr>"

definition scratch_feed_source :: feed_source where
  "scratch_feed_source = \<lparr>deployable = False, activeSnapshotId = Some 1, versions = []\<rparr>"

section \<open>Properties of the dependency check\<close>


lemma testResults_log [simp]:
  "testResults (log_info m s) = testResults s" "testResults (log_error m s) = testResults s"
  by (simp_all add: log_info_def log_error_def)







section \<open>Properties of the text entry helpers\<close>

lemma input_element_at_end:
  "caret e = length (el_value e) \<Longrightarrow> e\<lparr>caret := length (el_value e)\<rparr> = e"
  by (cases e) simp

lemma fold_keys_at_end:
  "caret e = length (el_value e) \<Longrightarrow>
   fold (\<lambda>c e. if c = CHR 0x0D \<or> c = CHR 0x0A then e else insert_char c e) cs e
     = e\<lparr>el_value := el_value e @ inserted cs, caret := length (el_value e @ inserted cs)\<rparr>"
proof (induction cs arbitrary: e)
  case Nil
  then show ?case by (simp add: inserted_def input_element_at_end)
next
  case (Cons c cs)
  show ?case
  proof (cases "c = CHR 0x0D \<or> c = CHR 0x0A")
    case True
    with Cons.IH [OF Cons.prems] show ?thesis by (auto simp: inserted_def)
  next
    case False
    have "caret (insert_char c e) = length (el_value (insert_char c e))"
      using Cons.prems by (simp add: insert_char_def)
    from Cons.IH [OF this] False Cons.prems show ?thesis
      by (simp add: inserted_def insert_char_def)
  qed
qed

lemma type_char_active:
  "activeElement p = Some i \<Longrightarrow>
   type_char c p = p\<lparr>inputs := (inputs p)
       (i := (if c = CHR 0x0D \<or> c = CHR 0x0A then inputs p i else insert_char c (inputs p i))),
     keystrokes := keystrokes p @ [stroke c]\<rparr>"
  by (simp add: type_char_def keyboard_press_def on_active_def stroke_def)

lemma keyboard_type_active:
  "activeElement p = Some i \<Longrightarrow>
   keyboard_type cs p = p\<lparr>inputs := (inputs p)
       (i := fold (\<lambda>c e. if c = CHR 0x0D \<or> c = CHR 0x0A then e else insert_char c e) cs
               (inputs p i)),
     keystrokes := keystrokes p @ map stroke cs\<rparr>"
proof (induction cs arbitrary: p)
  case Nil
  then show ?case by simp
next
  case (Cons c cs)
  have "activeElement (type_char c p) = Some i"
    using Cons.prems by (simp add: type_char_active)
  from Cons.IH [OF this] Cons.prems show ?case
    by (simp add: type_char_active cong: if_cong)
qed

lemma keyboard_type_at_end:
  assumes "activeElement p = Some i" "caret (inputs p i) = length (el_value (inputs p i))"
  shows "keyboard_type cs p =
           p\<lparr>inputs := (inputs p)(i := (inputs p i)
                \<lparr>el_value := el_value (inputs p i) @ inserted cs,
                 caret := length (el_value (inputs p i) @ inserted cs)\<rparr>),
             keystrokes := keystrokes p @ map stroke cs\<rparr>"
  by (simp only: keyboard_type_active [OF assms(1)] fold_keys_at_end [OF assms(2)])

lemma input_element_updates:
  "e\<lparr>el_value := a, caret := b\<rparr> = \<lparr>el_value = a, caret = b\<rparr>"
  by (cases e) simp

lemma clearAndType_found:
  assumes "querySelector p selector = Some i"
  shows "clearAndType selector text p =
           Inr (p\<lparr>inputs := (inputs p)(i := \<lparr>el_value = inserted text,
                                              caret = length (inserted text)\<rparr>),
                  activeElement := Some i,
                  keystrokes := keystrokes p @ map stroke text\<rparr>)"
proof -
  let ?p1 = "p\<lparr>inputs := (inputs p)(i := set_value [] (inputs p i)), activeElement := Some i\<rparr>"
  have "keyboard_type text ?p1 = ?p1\<lparr>inputs := (inputs ?p1)(i := (inputs ?p1 i)
                \<lparr>el_value := el_value (inputs ?p1 i) @ inserted text,
                 caret := length (el_value (inputs ?p1 i) @ inserted text)\<rparr>),
             keystrokes := keystrokes ?p1 @ map stroke text\<rparr>"
    by (rule keyboard_type_at_end) (simp_all add: set_value_def)
  then show ?thesis
    using assms
    by (simp add: clearAndType_def clearInput_def dollar_eval_def page_type_def page_focus_def
        set_value_def input_element_updates)
qed

lemma clearAndType_not_found:
  assumes "querySelector p selector = None"
  shows "clearAndType selector text p =
           Inl (Error (''Error: failed to find element matching selector '' @ quoted selector))"
  using assms by (simp add: clearAndType_def clearInput_def dollar_eval_def)

lemma appendText_found:
  assumes "querySelector p selector = Some i"
  shows "appendText selector text p =
           Inr (p\<lparr>inputs := (inputs p)(i := (inputs p i)
                    \<lparr>el_value := el_value (inputs p i) @ inserted text,
                     caret := length (el_value (inputs p i) @ inserted text)\<rparr>),
                  activeElement := Some i,
                  keystrokes := keystrokes p @ Press End # map stroke text\<rparr>)"
proof -
  let ?p1 = "keyboard_press End (p\<lparr>activeElement := Some i\<rparr>)"
  have "keyboard_type text ?p1 = ?p1\<lparr>inputs := (inputs ?p1)(i := (inputs ?p1 i)
                \<lparr>el_value := el_value (inputs ?p1 i) @ inserted text,
                 caret := length (el_value (inputs ?p1 i) @ inserted text)\<rparr>),
             keystrokes := keystrokes ?p1 @ map stroke text\<rparr>"
    by (rule keyboard_type_at_end) (simp_all add: keyboard_press_def on_active_def)
  then show ?thesis
    using assms
    by (simp add: appendText_def page_focus_def keyboard_press_def on_active_def)
qed

text \<open>
  Claim C9. \<open>clearAndType\<close> overwrites: where the selector denotes an input, the call
  succeeds and leaves in that input exactly what typing the text inserts, whatever the
  input held and wherever its caret stood before; two pages that agree on what the selector
  denotes end with the same input. No other input changes. \<open>appendText\<close> with the same
  arguments keeps the prior text and puts the typed text behind it.
\<close>

theorem clearAndType_overwrites:
  assumes "querySelector p selector = Some i"
  shows "\<exists>p'. clearAndType selector text p = Inr p'
           \<and> el_value (inputs p' i) = inserted text
           \<and> (\<forall>j. j \<noteq> i \<longrightarrow> inputs p' j = inputs p j)
           \<and> (\<forall>q. querySelector q selector = Some i \<longrightarrow>
                  (\<exists>q'. clearAndType selector text q = Inr q' \<and> inputs q' i = inputs p' i))
           \<and> (\<exists>p''. appendText selector text p = Inr p''
                  \<and> el_value (inputs p'' i) = el_value (inputs p i) @ inserted text)"
  using assms by (simp add: clearAndType_found appendText_found)

theorem clearAndType_overwrites_witness:
  "el_value (inputs stop_form 1) = ''1''
   \<and> map_sum id (\<lambda>p. el_value (inputs p 1))
         (clearAndType (input_of ''stop-stop_code-input-container'') ''3'' stop_form) = Inr ''3''
   \<and> el_value (inputs stop_form_edited 1) = ''4711''
   \<and> map_sum id (\<lambda>p. inputs p 1)
         (clearAndType (input_of ''stop-stop_code-input-container'') ''3'' stop_form_edited)
       = map_sum id (\<lambda>p. inputs p 1)
         (clearAndType (input_of ''stop-stop_code-input-container'') ''3'' stop_form)
   \<and> el_value (inputs stop_form 0) = ''test-stop-1''
   \<and> map_sum id (\<lambda>p. el_value (inputs p 0))
         (appendText (input_of ''stop-stop_id-input-container'') ''-copied'' stop_form)
       = Inr ''test-stop-1-copied''"
proof -
  have code: "querySelector stop_form (input_of ''stop-stop_code-input-container'') = Some 1"
    by (simp add: stop_form_def input_of_def quoted_def)
  have code': "querySelector stop_form_edited (input_of ''stop-stop_code-input-container'')
                 = Some 1"
    by (simp add: stop_form_edited_def code)
  have id: "querySelector stop_form (input_of ''stop-stop_id-input-container'') = Some 0"
    by (simp add: stop_form_def input_of_def quoted_def)
  have held: "el_value (inputs stop_form 1) = ''1''"
    "el_value (inputs stop_form 0) = ''test-stop-1''"
    "el_value (inputs stop_form_edited 1) = ''4711''"
    by (simp_all add: stop_form_def stop_form_edited_def)
  from clearAndType_overwrites [OF code, of "''3''"]
  have typed: "map_sum id (\<lambda>p. el_value (inputs p 1))
         (clearAndType (input_of ''stop-stop_code-input-container'') ''3'' stop_form) = Inr ''3''"
    by (auto simp: inserted_def)
  from clearAndType_overwrites [OF code, of "''3''"] code'
  have same: "map_sum id (\<lambda>p. inputs p 1)
         (clearAndType (input_of ''stop-stop_code-input-container'') ''3'' stop_form_edited)
       = map_sum id (\<lambda>p. inputs p 1)
         (clearAndType (input_of ''stop-stop_code-input-container'') ''3'' stop_form)"
    by auto
  from clearAndType_overwrites [OF id, of "''-copied''"] held
  have "map_sum id (\<lambda>p. el_value (inputs p 0))
         (appendText (input_of ''stop-stop_id-input-container'') ''-copied'' stop_form)
       = Inr ''test-stop-1-copied''"
    by (auto simp: inserted_def)
  with typed same held show ?thesis by simp
qed

lemma press_ArrowLeft_from_funpow:
  "press_ArrowLeft_from i n p = (keyboard_press ArrowLeft ^^ (n - i)) p"
proof (induction i n p rule: press_ArrowLeft_from.induct)
  case (1 i n p)
  show ?case
  proof (cases "i < n")
    case True
    have step: "press_ArrowLeft_from i n p
                  = press_ArrowLeft_from (Suc i) n (keyboard_press ArrowLeft p)"
      by (subst press_ArrowLeft_from.simps) (simp only: True if_True)
    have "n - i = Suc (n - Suc i)"
      using True by arith
    then have "(keyboard_press ArrowLeft ^^ (n - i)) p
                 = (keyboard_press ArrowLeft ^^ (n - Suc i)) (keyboard_press ArrowLeft p)"
      by (simp only: funpow_Suc_right o_apply)
    with step "1.IH" [OF True] show ?thesis
      by (simp only:)
  next
    case False
    have "press_ArrowLeft_from i n p = p"
      by (subst press_ArrowLeft_from.simps) (simp only: False if_False)
    moreover have "n - i = 0"
      using False by arith
    ultimately show ?thesis
      by (simp only: funpow_0)
  qed
qed

lemma keystrokes_presses:
  "keystrokes ((keyboard_press k ^^ n) p) = keystrokes p @ replicate n (Press k)"
proof (induction n)
  case 0
  then show ?case by simp
next
  case (Suc n)
  have "keystrokes ((keyboard_press k ^^ Suc n) p)
          = keystrokes ((keyboard_press k ^^ n) p) @ [Press k]"
    by (simp add: keyboard_press_def)
  also have "\<dots> = keystrokes p @ replicate (Suc n) (Press k)"
    by (simp only: Suc.IH append_assoc replicate_append_same [symmetric] replicate.simps)
  finally show ?case .
qed

lemma presses_ArrowLeft_active:
  "activeElement p = Some i \<Longrightarrow>
   (keyboard_press ArrowLeft ^^ n) p
     = p\<lparr>inputs := (inputs p)(i := (inputs p i)\<lparr>caret := caret (inputs p i) - n\<rparr>),
         keystrokes := keystrokes p @ replicate n (Press ArrowLeft)\<rparr>"
proof (induction n)
  case 0
  then show ?case by simp
next
  case (Suc n)
  have "(keyboard_press ArrowLeft ^^ Suc n) p
          = keyboard_press ArrowLeft ((keyboard_press ArrowLeft ^^ n) p)"
    by simp
  also have "\<dots> = keyboard_press ArrowLeft
      (p\<lparr>inputs := (inputs p)(i := (inputs p i)\<lparr>caret := caret (inputs p i) - n\<rparr>),
         keystrokes := keystrokes p @ replicate n (Press ArrowLeft)\<rparr>)"
    by (simp only: Suc.IH [OF Suc.prems])
  also have "\<dots> = p\<lparr>inputs := (inputs p)
        (i := (inputs p i)\<lparr>caret := caret (inputs p i) - Suc n\<rparr>),
      keystrokes := keystrokes p @ replicate (Suc n) (Press ArrowLeft)\<rparr>"
    using Suc.prems
    by (simp add: keyboard_press_def on_active_def replicate_append_same)
  finally show ?case .
qed

lemma type_minus_active:
  "activeElement p = Some i \<Longrightarrow>
   keyboard_type ''-'' p = p\<lparr>inputs := (inputs p)(i := insert_char CHR ''-'' (inputs p i)),
                            keystrokes := keystrokes p @ [Character CHR ''-'']\<rparr>"
  by (simp add: type_char_active stroke_def)

lemma clearAndType_active:
  "clearAndType selector text p = Inr p1 \<Longrightarrow>
   \<exists>i. querySelector p selector = Some i \<and> activeElement p1 = Some i"
  by (cases "querySelector p selector") (auto simp: clearAndType_found clearAndType_not_found)

text \<open>
  Claim C10. \<open>clearAndTypeNumber\<close> is the helper its description gives. For a text that
  \<open>parseFloat\<close> does not read below zero it is \<open>clearAndType\<close>, and it throws what
  \<open>clearAndType\<close> throws. For a text below zero it runs \<open>clearAndType\<close> and then sends
  the page one press of \<^verbatim>\<open>ArrowLeft\<close> for every character of the text, \<open>length text\<close>
  presses, and after them one typed \<^verbatim>\<open>-\<close>, and no other key stroke; the \<^verbatim>\<open>-\<close> lands in the
  focused input at the place the caret has reached, \<open>length text\<close> places left of where
  \<open>clearAndType\<close> left it (the start, when there are fewer places). The loop of the
  helper sends \<open>n - i\<close> presses on every page. This holds for every \<open>parseFloat\<close>.
\<close>

theorem clearAndTypeNumber_as_described:
  "clearAndTypeNumber parseFloat selector text p
     = clearAndTypeNumber_described parseFloat selector text p
   \<and> (\<not> less_than_zero (parseFloat text) \<longrightarrow>
        clearAndTypeNumber parseFloat selector text p = clearAndType selector text p)
   \<and> (\<forall>e. clearAndType selector text p = Inl e \<longrightarrow>
        clearAndTypeNumber parseFloat selector text p = Inl e)
   \<and> (less_than_zero (parseFloat text) \<longrightarrow>
        (\<forall>p1. clearAndType selector text p = Inr p1 \<longrightarrow>
           (\<exists>p2 i. clearAndTypeNumber parseFloat selector text p = Inr p2
              \<and> keystrokes p2
                  = keystrokes p1 @ replicate (length text) (Press ArrowLeft)
                      @ [Character CHR ''-'']
              \<and> activeElement p1 = Some i
              \<and> inputs p2 i = insert_char CHR ''-''
                    ((inputs p1 i)\<lparr>caret := caret (inputs p1 i) - length text\<rparr>)
              \<and> (\<forall>j. j \<noteq> i \<longrightarrow> inputs p2 j = inputs p1 j))))
   \<and> (\<forall>i n q. keystrokes (press_ArrowLeft_from i n q)
                 = keystrokes q @ replicate (n - i) (Press ArrowLeft))"
proof -
  have described: "clearAndTypeNumber parseFloat selector text p
     = clearAndTypeNumber_described parseFloat selector text p"
    by (cases "clearAndType selector text p")
       (simp_all add: clearAndTypeNumber_def clearAndTypeNumber_described_def
          press_ArrowLeft_from_funpow)
  have positive: "clearAndTypeNumber parseFloat selector text p = clearAndType selector text p"
    if "\<not> less_than_zero (parseFloat text)"
    using that by (simp add: described clearAndTypeNumber_described_def)
  have thrown: "clearAndTypeNumber parseFloat selector text p = Inl e"
    if "clearAndType selector text p = Inl e" for e
    using that by (simp add: clearAndTypeNumber_def)
  have negative: "\<exists>p2 i. clearAndTypeNumber parseFloat selector text p = Inr p2
              \<and> keystrokes p2
                  = keystrokes p1 @ replicate (length text) (Press ArrowLeft)
                      @ [Character CHR ''-'']
              \<and> activeElement p1 = Some i
              \<and> inputs p2 i = insert_char CHR ''-''
                    ((inputs p1 i)\<lparr>caret := caret (inputs p1 i) - length text\<rparr>)
              \<and> (\<forall>j. j \<noteq> i \<longrightarrow> inputs p2 j = inputs p1 j)"
    if "less_than_zero (parseFloat text)" "clearAndType selector text p = Inr p1" for p1
  proof -
    from clearAndType_active [OF that(2)] obtain i where active: "activeElement p1 = Some i"
      by blast
    let ?p' = "(keyboard_press ArrowLeft ^^ length text) p1"
    have moved: "?p' = p1\<lparr>inputs := (inputs p1)
          (i := (inputs p1 i)\<lparr>caret := caret (inputs p1 i) - length text\<rparr>),
        keystrokes := keystrokes p1 @ replicate (length text) (Press ArrowLeft)\<rparr>"
      using active by (rule presses_ArrowLeft_active)
    then have "activeElement ?p' = Some i"
      using active by simp
    then have "keyboard_type ''-'' ?p'
                 = ?p'\<lparr>inputs := (inputs ?p')(i := insert_char CHR ''-'' (inputs ?p' i)),
                       keystrokes := keystrokes ?p' @ [Character CHR ''-'']\<rparr>"
      by (rule type_minus_active)
    then show ?thesis
      using that active by (simp add: described clearAndTypeNumber_described_def moved)
  qed
  have loop: "keystrokes (press_ArrowLeft_from i n q)
                 = keystrokes q @ replicate (n - i) (Press ArrowLeft)" for i n q
    by (simp only: press_ArrowLeft_from_funpow keystrokes_presses)
  from described positive thrown negative loop show ?thesis by blast
qed

theorem clearAndTypeNumber_as_described_witness:
  "less_than_zero (parseFloat_of_suite ''-122.07529759'')
   \<and> \<not> less_than_zero (parseFloat_of_suite ''37.04671717'')
   \<and> clearAndTypeNumber parseFloat_of_suite (input_of ''stop-stop_lat-input-container'')
        ''37.04671717'' stop_form
       = clearAndType (input_of ''stop-stop_lat-input-container'') ''37.04671717'' stop_form
   \<and> map_sum id (\<lambda>p. (inputs p 3, length (keystrokes p)))
        (clearAndType (input_of ''stop-stop_lon-input-container'') ''-122.07529759'' stop_form)
       = Inr (\<lparr>el_value = ''-122.07529759'', caret = 13\<rparr>, 13)
   \<and> map_sum id (\<lambda>p. (inputs p 3, drop 13 (keystrokes p)))
        (clearAndTypeNumber parseFloat_of_suite (input_of ''stop-stop_lon-input-container'')
           ''-122.07529759'' stop_form)
       = Inr (\<lparr>el_value = ''--122.07529759'', caret = 1\<rparr>,
              replicate 13 (Press ArrowLeft) @ [Character CHR ''-''])"
proof -
  let ?lat = "input_of ''stop-stop_lat-input-container''"
  let ?lon = "input_of ''stop-stop_lon-input-container''"
  have neg: "less_than_zero (parseFloat_of_suite ''-122.07529759'')"
    by (simp add: parseFloat_of_suite_def)
  have pos: "\<not> less_than_zero (parseFloat_of_suite ''37.04671717'')"
    by (simp add: parseFloat_of_suite_def)
  have q: "querySelector stop_form ?lon = Some 3"
    by (simp add: stop_form_def input_of_def quoted_def)
  define p1 where "p1 = stop_form\<lparr>inputs := (inputs stop_form)
      (3 := \<lparr>el_value = inserted ''-122.07529759'',
             caret = length (inserted ''-122.07529759'')\<rparr>), activeElement := Some 3,
      keystrokes := keystrokes stop_form @ map stroke ''-122.07529759''\<rparr>"
  have typed: "clearAndType ?lon ''-122.07529759'' stop_form = Inr p1"
    unfolding p1_def using q by (rule clearAndType_found)
  have active: "activeElement p1 = Some 3"
    by (simp add: p1_def)
  have field: "inputs p1 3 = \<lparr>el_value = ''-122.07529759'', caret = 13\<rparr>"
    by (simp add: p1_def inserted_def)
  have sent: "length (keystrokes p1) = 13"
    by (simp add: p1_def stop_form_def)
  from clearAndTypeNumber_as_described
         [of parseFloat_of_suite ?lat "''37.04671717''" stop_form] pos
  have lat: "clearAndTypeNumber parseFloat_of_suite ?lat ''37.04671717'' stop_form
               = clearAndType ?lat ''37.04671717'' stop_form"
    by blast
  from clearAndTypeNumber_as_described
         [of parseFloat_of_suite ?lon "''-122.07529759''" stop_form] neg typed
  obtain p2 i where
    p2: "clearAndTypeNumber parseFloat_of_suite ?lon ''-122.07529759'' stop_form = Inr p2"
    and keys: "keystrokes p2 = keystrokes p1
                 @ replicate (length ''-122.07529759'') (Press ArrowLeft) @ [Character CHR ''-'']"
    and i: "activeElement p1 = Some i"
    and at: "inputs p2 i = insert_char CHR ''-''
               ((inputs p1 i)\<lparr>caret := caret (inputs p1 i) - length ''-122.07529759''\<rparr>)"
    by blast
  from i active have i3: "i = 3"
    by simp
  have left: "inputs p2 3 = \<lparr>el_value = ''--122.07529759'', caret = 1\<rparr>"
    using at by (simp add: i3 field insert_char_def)
  have len: "length ''-122.07529759'' = 13"
    by simp
  have behind: "drop (length ks) (ks @ more) = more" for ks more :: "keystroke list"
    by simp
  have "drop (length (keystrokes p1)) (keystrokes p2)
          = replicate (length ''-122.07529759'') (Press ArrowLeft) @ [Character CHR ''-'']"
    by (simp only: keys behind)
  then have "drop 13 (keystrokes p2) = replicate 13 (Press ArrowLeft) @ [Character CHR ''-'']"
    by (simp only: sent len)
  with neg pos lat p2 typed field left sent show ?thesis
    by simp
qed

section \<open>Properties of feed versions and publishing\<close>

lemma union_bound_Min_Max:
  "rs \<noteq> [] \<Longrightarrow> union_bound rs = Some (Min (fst ` set rs), Max (snd ` set rs))"
proof (cases rs)
  case Nil
  then show "rs \<noteq> [] \<Longrightarrow> ?thesis" by simp
next
  case (Cons r rest)
  have "Min (fst ` set rs) = Min (set (fst r # map fst rest))"
    by (simp add: Cons)
  also have "\<dots> = fold min (map fst rest) (fst r)"
    by (rule Min.set_eq_fold)
  finally have lo: "Min (fst ` set rs) = fold min (map fst rest) (fst r)" .
  have "Max (snd ` set rs) = Max (set (snd r # map snd rest))"
    by (simp add: Cons)
  also have "\<dots> = fold max (map snd rest) (snd r)"
    by (rule Max.set_eq_fold)
  finally have hi: "Max (snd ` set rs) = fold max (map snd rest) (snd r)" .
  show ?thesis
    unfolding lo hi by (simp add: Cons)
qed

lemma set_insert_version: "set (insert_version v vs) = insert v (set vs)"
  by (induction vs) auto

lemma most_recent_first_insert:
  "most_recent_first vs \<Longrightarrow> most_recent_first (insert_version v vs)"
  unfolding most_recent_first_def
  by (induction vs) (auto simp: set_insert_version)

lemma most_recent_first_filter:
  "most_recent_first vs \<Longrightarrow> most_recent_first (filter P vs)"
  unfolding most_recent_first_def by (rule sorted_wrt_filter)

lemma insert_version_newest:
  "\<forall>w\<in>set vs. created w < created v \<Longrightarrow> insert_version v vs = v # vs"
  by (cases vs) auto

lemma filter_other_ids:
  "\<forall>w\<in>set vs. version_id w \<noteq> vid \<Longrightarrow> filter (\<lambda>w. version_id w \<noteq> vid) vs = vs"
  by (induction vs) auto

text \<open>
  Claim C4. The versions of a feed source stay ordered most-recent-first under every
  addition and every deletion. A version newer than all the others becomes the first of
  the list, the one on display; deleting it gives back the feed source as it was, with
  the previous version on display again and the active snapshot untouched. In any list,
  deleting the first version puts the second on display.
\<close>

theorem feed_versions_most_recent_first:
  assumes ordered: "most_recent_first (versions fs)"
    and newest: "\<forall>w\<in>set (versions fs). created w < created v \<and> version_id w \<noteq> version_id v"
  shows "most_recent_first (versions (add_version v fs))
     \<and> current_version (add_version v fs) = Some v
     \<and> delete_version (version_id v) (add_version v fs) = fs
     \<and> current_version (delete_version (version_id v) (add_version v fs)) = current_version fs
     \<and> activeSnapshotId (delete_version (version_id v) (add_version v fs)) = activeSnapshotId fs
     \<and> (\<forall>u. most_recent_first (versions (add_version u fs)))
     \<and> (\<forall>vid. most_recent_first (versions (delete_version vid fs)))
     \<and> (\<forall>a b rest. versions fs = a # b # rest \<and> version_id b \<noteq> version_id a \<longrightarrow>
            current_version (delete_version (version_id a) fs) = Some b)"
proof -
  have first: "insert_version v (versions fs) = v # versions fs"
    using newest by (intro insert_version_newest) simp
  have others: "filter (\<lambda>w. version_id w \<noteq> version_id v) (versions fs) = versions fs"
    using newest by (intro filter_other_ids) simp
  have restored: "delete_version (version_id v) (add_version v fs) = fs"
    by (simp add: delete_version_def add_version_def first others)
  have "most_recent_first (versions (add_version u fs))" for u
    using ordered by (simp add: add_version_def most_recent_first_insert)
  moreover have "most_recent_first (versions (delete_version vid fs))" for vid
    using ordered by (simp add: delete_version_def most_recent_first_filter)
  moreover have "current_version (add_version v fs) = Some v"
    by (simp add: current_version_def add_version_def first)
  moreover have "current_version (delete_version (version_id a) fs) = Some b"
    if "versions fs = a # b # rest \<and> version_id b \<noteq> version_id a" for a b rest
    using that by (simp add: current_version_def delete_version_def)
  ultimately show ?thesis
    by (simp add: restored)
qed

theorem feed_versions_most_recent_first_witness:
  "most_recent_first (versions test_feed_source)
   \<and> map_option validity (current_version test_feed_source)
       = Some (Some ((2018, 4, 8), (2018, 6, 30)))
   \<and> map_option validity (current_version (add_version uploaded_again test_feed_source))
       = Some (Some ((2014, 1, 1), (2018, 12, 31)))
   \<and> map_option validity (current_version
        (delete_version (version_id uploaded_again) (add_version uploaded_again test_feed_source)))
       = Some (Some ((2018, 4, 8), (2018, 6, 30)))
   \<and> current_version (delete_version (version_id fetched_version) test_feed_source)
       = Some uploaded_version"
proof -
  have ordered: "most_recent_first (versions test_feed_source)"
    by (simp add: most_recent_first_def test_feed_source_def fetched_version_def
        uploaded_version_def)
  have newest: "\<forall>w\<in>set (versions test_feed_source).
      created w < created uploaded_again \<and> version_id w \<noteq> version_id uploaded_again"
    by (simp add: test_feed_source_def fetched_version_def uploaded_version_def
        uploaded_again_def)
  have shown: "map_option validity (current_version test_feed_source)
       = Some (Some ((2018, 4, 8), (2018, 6, 30)))"
    by (simp add: current_version_def test_feed_source_def fetched_version_def)
  have two: "versions test_feed_source = fetched_version # uploaded_version # []
               \<and> version_id uploaded_version \<noteq> version_id fetched_version"
    by (simp add: test_feed_source_def fetched_version_def uploaded_version_def)
  from feed_versions_most_recent_first [OF ordered newest] two
  have previous: "current_version (delete_version (version_id fetched_version) test_feed_source)
                    = Some uploaded_version"
    by blast
  from feed_versions_most_recent_first [OF ordered newest] ordered shown previous
  show ?thesis
    by (simp add: uploaded_again_def)
qed

text \<open>
  Claim C2. Every successful publish of a snapshot materializes a version whose validity
  window is the bound of the union of the snapshot's date ranges: from the earliest start
  to the latest end of its calendars and exceptions. A snapshot with one calendar and
  no exception publishes to the window of that calendar. The snapshot is deactivated
  and the version is among the feed source's.
\<close>

theorem publish_validity_window:
  assumes "publish outcome now vid snap fs = Inr (v, snap', fs')"
  shows "validity v = union_bound (date_ranges snap)
     \<and> (date_ranges snap \<noteq> [] \<longrightarrow>
          validity v = Some (Min (fst ` set (date_ranges snap)),
                             Max (snd ` set (date_ranges snap))))
     \<and> (\<forall>c. calendars snap = [c] \<and> exceptions snap = [] \<longrightarrow>
          validity v = Some (start_date c, end_date c))
     \<and> source_snapshot v = Some (snapshot_id snap)
     \<and> status snap' = Published
     \<and> activeSnapshotId fs' = None
     \<and> v \<in> set (versions fs')"
proof -
  from assms have v: "v = \<lparr>version_id = vid, created = now,
                         validity = union_bound (date_ranges snap),
                         source_snapshot = Some (snapshot_id snap)\<rparr>"
    and snap': "snap' = snap\<lparr>status := Published\<rparr>"
    and fs': "fs' = add_version v (fs\<lparr>activeSnapshotId := None\<rparr>)"
    by (auto simp: publish_def Let_def split: if_splits export_outcome.splits)
  have window: "validity v = union_bound (date_ranges snap)"
    by (simp add: v)
  have single: "validity v = Some (start_date c, end_date c)"
    if "calendars snap = [c] \<and> exceptions snap = []" for c
    using that by (simp add: window date_ranges_def)
  have "v \<in> set (versions fs')"
    by (simp add: fs' add_version_def set_insert_version)
  moreover have "activeSnapshotId fs' = None"
    by (simp add: fs' add_version_def)
  ultimately show ?thesis
    using window single union_bound_Min_Max [of "date_ranges snap"]
    by (simp add: snap' v)
qed

theorem publish_validity_window_witness:
  "map_sum id (\<lambda>(v, snap', fs'). (validity v, status snap', activeSnapshotId fs'))
     (publish Exported 4 1 scratch_snapshot scratch_feed_source)
     = Inr (Some ((2018, 5, 29), (2028, 5, 29)), Published, None)
   \<and> date_ranges scratch_snapshot = [((2018, 5, 29), (2028, 5, 29)), ((2018, 7, 4), (2018, 7, 4))]
   \<and> map_sum id (\<lambda>(v, snap', fs'). validity v)
     (publish Exported 4 1 calendar_only_snapshot scratch_feed_source)
     = Inr (Some ((2018, 5, 29), (2028, 5, 29)))"
proof -
  obtain v snap' fs' where
    run: "publish Exported 4 1 scratch_snapshot scratch_feed_source = Inr (v, snap', fs')"
    by (simp add: publish_def Let_def)
  obtain v1 snap1 fs1 where
    run1: "publish Exported 4 1 calendar_only_snapshot scratch_feed_source = Inr (v1, snap1, fs1)"
    by (simp add: publish_def Let_def)
  have ranges: "date_ranges scratch_snapshot
                  = [((2018, 5, 29), (2028, 5, 29)), ((2018, 7, 4), (2018, 7, 4))]"
    by (simp add: date_ranges_def scratch_snapshot_def exception_range_def)
  then have bound: "union_bound (date_ranges scratch_snapshot)
                      = Some ((2018, 5, 29), (2028, 5, 29))"
    by (simp add: min_def max_def)
  have only: "calendars calendar_only_snapshot
                = [\<lparr>service_id = ''test-service-id'',
                    start_date = (2018, 5, 29), end_date = (2028, 5, 29)\<rparr>]
              \<and> exceptions calendar_only_snapshot = []"
    by (simp add: calendar_only_snapshot_def scratch_snapshot_def)
  from publish_validity_window [OF run1]
  have "\<forall>c. calendars calendar_only_snapshot = [c] \<and> exceptions calendar_only_snapshot = []
          \<longrightarrow> validity v1 = Some (start_date c, end_date c)"
    by blast
  with only
  have "validity v1 = Some (start_date \<lparr>service_id = ''test-service-id'',
                                start_date = (2018, 5, 29), end_date = (2028, 5, 29)\<rparr>,
                            end_date \<lparr>service_id = ''test-service-id'',
                                start_date = (2018, 5, 29), end_date = (2028, 5, 29)\<rparr>)"
    by blast
  then have "validity v1 = Some ((2018, 5, 29), (2028, 5, 29))"
    by simp
  with publish_validity_window [OF run] run run1 bound ranges show ?thesis
    by simp
qed

end
